theory Spec2Isabelle
  imports Complex_Main "HOL-Library.Sublist"
begin

section \<open>The subtitle splitter \<^verbatim>\<open>split_srt.py\<close>\<close>

text \<open>
  A shallow embedding of \<^verbatim>\<open>src/split_srt.py\<close>: the timestamp codec
  (\<^verbatim>\<open>parse_srt_time\<close>, \<^verbatim>\<open>seconds_to_srt_time\<close>), the block parser
  (\<^verbatim>\<open>parse_srt_file\<close>, on the text the file holds) and the partitioner
  (\<^verbatim>\<open>split_srt_by_time\<close>).

  Conventions of the model.
  \<^item> A Python \<^verbatim>\<open>str\<close> is a \<open>string\<close>; a character is a code point below 256.
  \<^item> Times are exact rationals (\<open>rat\<close>). The partitioner only compares, adds and
    subtracts; the codec divides by 1000 and multiplies by 1000, which Python does in
    binary floating point. The rounding of that arithmetic is not modelled.
  \<^item> Every exception the modelled code can raise is a \<^verbatim>\<open>ValueError\<close>; a function
    that can raise returns \<open>error + 'a\<close>.
  \<^item> The \<^verbatim>\<open>while\<close> loop of the partitioner may run forever, so it is a partial
    function into \<open>option\<close>: \<open>None\<close> is "does not return".
\<close>

subsection \<open>Python string primitives\<close>




text \<open>
  \<^verbatim>\<open>s.split(sep)\<close> for a separator: the leftmost occurrences, not overlapping.
  Every separator of the source is a non-empty literal (Python raises on an empty one;
  here an empty separator never matches).
\<close>

fun py_split :: "string \<Rightarrow> string \<Rightarrow> string list" where
  "py_split sep [] = [[]]"
| "py_split sep (c # cs) =
     (if sep \<noteq> [] \<and> prefix sep (c # cs)
      then [] # py_split sep (drop (length sep - 1) cs)
      else (case py_split sep cs of
              [] \<Rightarrow> [[c]]
            | w # ws \<Rightarrow> (c # w) # ws))"











subsection \<open>Timestamps\<close>






subsection \<open>Entries and the block parser\<close>

text \<open>
  The dictionary of one subtitle (keys \<^verbatim>\<open>number\<close>, \<^verbatim>\<open>start\<close>, \<^verbatim>\<open>end\<close>,
  \<^verbatim>\<open>text\<close>) and of one chunk (keys \<^verbatim>\<open>number\<close>, \<^verbatim>\<open>start_time\<close>,
  \<^verbatim>\<open>end_time\<close>, \<^verbatim>\<open>subtitles\<close>, \<^verbatim>\<open>planned_start\<close>, \<^verbatim>\<open>planned_end\<close>).
\<close>

record subtitle =
  sub_number :: int
  sub_start :: rat
  sub_end :: rat
  sub_text :: string

record chunk =
  ch_number :: int
  ch_start_time :: rat
  ch_end_time :: rat
  ch_subtitles :: "subtitle list"
  ch_planned_start :: rat
  ch_planned_end :: rat




subsection \<open>The partitioner\<close>

text \<open>The membership test of lines 83-84.\<close>

definition in_chunk :: "rat \<Rightarrow> rat \<Rightarrow> subtitle \<Rightarrow> bool" where
  "in_chunk chunk_start chunk_end sub \<longleftrightarrow>
     (sub_start sub \<ge> chunk_start \<and> sub_start sub < chunk_end) \<or>
     (sub_end sub > chunk_start \<and> sub_start sub < chunk_end)"

text \<open>The inner \<^verbatim>\<open>for sub in subtitles\<close> loop, appending to \<^verbatim>\<open>chunk_subtitles\<close>.\<close>

fun select_subtitles :: "rat \<Rightarrow> rat \<Rightarrow> subtitle list \<Rightarrow> subtitle list \<Rightarrow> subtitle list" where
  "select_subtitles chunk_start chunk_end [] chunk_subtitles = chunk_subtitles"
| "select_subtitles chunk_start chunk_end (sub # subtitles) chunk_subtitles =
     select_subtitles chunk_start chunk_end subtitles
       (if in_chunk chunk_start chunk_end sub then chunk_subtitles @ [sub] else chunk_subtitles)"

text \<open>
  Lines 87-101: the state is the pair of \<^verbatim>\<open>chunk_number\<close> and \<^verbatim>\<open>chunks\<close>.
  \<^verbatim>\<open>min\<close> and \<^verbatim>\<open>max\<close> run over a list known to be non-empty.
\<close>

definition emit_chunk :: "rat \<Rightarrow> rat \<Rightarrow> subtitle list \<Rightarrow> int \<times> chunk list \<Rightarrow> int \<times> chunk list" where
  "emit_chunk chunk_start chunk_end chunk_subtitles st =
     (case st of (chunk_number, chunks) \<Rightarrow>
        (case chunk_subtitles of
           [] \<Rightarrow> (chunk_number, chunks)
         | sub # rest \<Rightarrow>
             (chunk_number + 1,
              chunks @ [\<lparr>ch_number = chunk_number,
                         ch_start_time = fold min (map sub_start rest) (sub_start sub),
                         ch_end_time = fold max (map sub_end rest) (sub_end sub),
                         ch_subtitles = chunk_subtitles,
                         ch_planned_start = chunk_start,
                         ch_planned_end = chunk_end\<rparr>])))"

text \<open>The \<^verbatim>\<open>while\<close> loop of lines 73-108; \<open>None\<close> when it never leaves.\<close>

partial_function (option) split_loop ::
  "subtitle list \<Rightarrow> rat \<Rightarrow> rat \<Rightarrow> rat \<Rightarrow> rat \<Rightarrow> int \<times> chunk list \<Rightarrow> chunk list option" where
  "split_loop subtitles chunk_duration overlap_duration total_duration chunk_start st =
     (if chunk_start < total_duration then
        (let chunk_end = chunk_start + chunk_duration;
             next_chunk_start = chunk_end - overlap_duration;
             chunk_subtitles = select_subtitles chunk_start chunk_end subtitles [];
             st' = emit_chunk chunk_start chunk_end chunk_subtitles st
         in if next_chunk_start \<ge> total_duration then Some (snd st')
            else split_loop subtitles chunk_duration overlap_duration total_duration
                   next_chunk_start st')
      else Some (snd st))"

declare split_loop.simps [code]

definition split_srt_by_time :: "subtitle list \<Rightarrow> rat \<Rightarrow> rat \<Rightarrow> chunk list option" where
  "split_srt_by_time subtitles chunk_duration_minutes overlap_minutes =
     (let chunk_duration = chunk_duration_minutes * 60;
          overlap_duration = overlap_minutes * 60
      in case subtitles of
           [] \<Rightarrow> Some []
         | sub # rest \<Rightarrow>
             (let total_duration = fold max (map sub_end rest) (sub_end sub)
              in split_loop subtitles chunk_duration overlap_duration total_duration 0 (1, [])))"

subsection \<open>The iterations of the loop, for reasoning\<close>

text \<open>
  The values \<^verbatim>\<open>chunk_start\<close> takes in the iterations of the loop entered at
  \<open>chunk_start < total_duration\<close>, when it advances by \<open>step > 0\<close>: the loop goes on
  while the next start is below \<open>total_duration\<close>.
\<close>

function planned_starts :: "rat \<Rightarrow> rat \<Rightarrow> rat \<Rightarrow> rat list" where
  "planned_starts total_duration step chunk_start =
     (if 0 < step \<and> chunk_start + step < total_duration
      then chunk_start # planned_starts total_duration step (chunk_start + step)
      else [chunk_start])"
  by pat_completeness auto
termination
proof (relation "measure (\<lambda>(total_duration, step, chunk_start). nat \<lceil>(total_duration - chunk_start) / step\<rceil>)")
  show "wf (measure (\<lambda>(total_duration, step, chunk_start). nat \<lceil>(total_duration - chunk_start) / step\<rceil>))"
    by simp
next
  fix total_duration step chunk_start :: rat
  assume a: "0 < step \<and> chunk_start + step < total_duration"
  then have "(total_duration - (chunk_start + step)) / step = (total_duration - chunk_start) / step - 1"
    by (simp add: field_simps)
  moreover from a have "0 < (total_duration - (chunk_start + step)) / step"
    by simp
  ultimately show "((total_duration, step, chunk_start + step), (total_duration, step, chunk_start))
      \<in> measure (\<lambda>(total_duration, step, chunk_start). nat \<lceil>(total_duration - chunk_start) / step\<rceil>)"
    by simp
qed

declare planned_starts.simps [simp del]

text \<open>The state after the iterations at the given starts.\<close>

fun emit_all :: "subtitle list \<Rightarrow> rat \<Rightarrow> rat list \<Rightarrow> int \<times> chunk list \<Rightarrow> int \<times> chunk list" where
  "emit_all subtitles chunk_duration [] st = st"
| "emit_all subtitles chunk_duration (chunk_start # starts) st =
     emit_all subtitles chunk_duration starts
       (emit_chunk chunk_start (chunk_start + chunk_duration)
          (select_subtitles chunk_start (chunk_start + chunk_duration) subtitles []) st)"

text \<open>
  The chunk that the iteration at \<open>chunk_start\<close> appends when its selection is not
  empty, and the chunks appended by the iterations at the given starts, numbered from
  \<open>chunk_number\<close>.
\<close>

definition window :: "subtitle list \<Rightarrow> rat \<Rightarrow> int \<Rightarrow> rat \<Rightarrow> chunk" where
  "window subtitles chunk_duration chunk_number chunk_start =
     (let chunk_end = chunk_start + chunk_duration;
          chunk_subtitles = filter (in_chunk chunk_start chunk_end) subtitles
      in \<lparr>ch_number = chunk_number,
          ch_start_time = Min (sub_start ` set chunk_subtitles),
          ch_end_time = Max (sub_end ` set chunk_subtitles),
          ch_subtitles = chunk_subtitles,
          ch_planned_start = chunk_start,
          ch_planned_end = chunk_end\<rparr>)"

fun windows :: "subtitle list \<Rightarrow> rat \<Rightarrow> int \<Rightarrow> rat list \<Rightarrow> chunk list" where
  "windows subtitles chunk_duration chunk_number [] = []"
| "windows subtitles chunk_duration chunk_number (chunk_start # starts) =
     (if filter (in_chunk chunk_start (chunk_start + chunk_duration)) subtitles = []
      then windows subtitles chunk_duration chunk_number starts
      else window subtitles chunk_duration chunk_number chunk_start
           # windows subtitles chunk_duration (chunk_number + 1) starts)"

subsection \<open>Notions of the specification, for stating the claims\<close>

text \<open>
  The overlap test in the words of the specification: the interval of the entry ends
  after the planned start and starts before the planned end.
\<close>

definition spec_overlaps :: "rat \<Rightarrow> rat \<Rightarrow> subtitle \<Rightarrow> bool" where
  "spec_overlaps planned_start planned_end entry \<longleftrightarrow>
     sub_end entry > planned_start \<and> sub_start entry < planned_end"




section \<open>Properties\<close>

subsection \<open>The loop and its iterations\<close>

lemma split_loop_planned:
  "overlap_duration < chunk_duration \<Longrightarrow> chunk_start < total_duration \<Longrightarrow>
   split_loop subtitles chunk_duration overlap_duration total_duration chunk_start st =
   Some (snd (emit_all subtitles chunk_duration
                (planned_starts total_duration (chunk_duration - overlap_duration) chunk_start) st))"
proof (induction total_duration "chunk_duration - overlap_duration" chunk_start arbitrary: st
       rule: planned_starts.induct)
  case (1 total_duration chunk_start)
  let ?step = "chunk_duration - overlap_duration"
  show ?case
  proof (cases "chunk_start + ?step < total_duration")
    case True
    with 1 show ?thesis
      by (subst split_loop.simps, subst planned_starts.simps) (simp add: Let_def algebra_simps)
  next
    case False
    with 1 show ?thesis
      by (subst split_loop.simps, subst planned_starts.simps) (simp add: Let_def algebra_simps)
  qed
qed

lemma split_loop_Some_advances:
  assumes "split_loop subtitles chunk_duration overlap_duration total_duration chunk_start st = Some r"
  shows "\<not> (chunk_duration \<le> overlap_duration \<and> chunk_start < total_duration)"
  using assms
proof (rule split_loop.raw_induct [rotated,
         where P = "\<lambda>subs c ov T cs s r. \<not> (c \<le> ov \<and> cs < T)"])
  fix f :: "subtitle list \<Rightarrow> rat \<Rightarrow> rat \<Rightarrow> rat \<Rightarrow> rat \<Rightarrow> int \<times> chunk list \<Rightarrow> chunk list option"
  fix subs c ov T cs s r
  assume IH: "\<And>subs c ov T cs s r. f subs c ov T cs s = Some r \<Longrightarrow> \<not> (c \<le> ov \<and> cs < T)"
  assume body: "(if cs < T
        then let chunk_end = cs + c;
                 next_chunk_start = chunk_end - ov;
                 chunk_subtitles = select_subtitles cs chunk_end subs [];
                 st' = emit_chunk cs chunk_end chunk_subtitles s
             in if T \<le> next_chunk_start then Some (snd st')
                else f subs c ov T next_chunk_start st'
        else Some (snd s)) = Some r"
  show "\<not> (c \<le> ov \<and> cs < T)"
  proof
    assume h: "c \<le> ov \<and> cs < T"
    then have lt': "cs + c - ov < T" by linarith
    with h body have "f subs c ov T (cs + c - ov)
         (emit_chunk cs (cs + c) (select_subtitles cs (cs + c) subs []) s) = Some r"
      by (simp add: Let_def)
    from IH [OF this] h lt' show False by blast
  qed
qed

lemma split_loop_diverges:
  "chunk_duration \<le> overlap_duration \<Longrightarrow> chunk_start < total_duration \<Longrightarrow>
   split_loop subtitles chunk_duration overlap_duration total_duration chunk_start st = None"
  using split_loop_Some_advances [of subtitles chunk_duration overlap_duration total_duration chunk_start st]
  by (cases "split_loop subtitles chunk_duration overlap_duration total_duration chunk_start st") auto

subsection \<open>The emitted chunks\<close>

lemma select_subtitles_filter:
  "select_subtitles chunk_start chunk_end subtitles acc =
   acc @ filter (in_chunk chunk_start chunk_end) subtitles"
  by (induction subtitles arbitrary: acc) simp_all

lemma fold_max_Max: "fold max (map f xs) (f x) = Max (f ` set (x # xs))"
proof -
  have "Max (set (f x # map f xs)) = fold max (map f xs) (f x)"
    by (rule Max.set_eq_fold)
  then show ?thesis by simp
qed

lemma fold_min_Min: "fold min (map f xs) (f x) = Min (f ` set (x # xs))"
proof -
  have "Min (set (f x # map f xs)) = fold min (map f xs) (f x)"
    by (rule Min.set_eq_fold)
  then show ?thesis by simp
qed

lemma emit_chunk_Nil: "emit_chunk chunk_start chunk_end [] (n, chunks) = (n, chunks)"
  by (simp add: emit_chunk_def)

lemma emit_chunk_nonempty:
  "chunk_subtitles \<noteq> [] \<Longrightarrow>
   emit_chunk chunk_start chunk_end chunk_subtitles (n, chunks) =
   (n + 1, chunks @ [\<lparr>ch_number = n,
                       ch_start_time = Min (sub_start ` set chunk_subtitles),
                       ch_end_time = Max (sub_end ` set chunk_subtitles),
                       ch_subtitles = chunk_subtitles,
                       ch_planned_start = chunk_start,
                       ch_planned_end = chunk_end\<rparr>])"
  by (cases chunk_subtitles) (simp_all add: emit_chunk_def fold_max_Max fold_min_Min del: set_simps image_insert)

lemma emit_all_windows:
  "emit_all subtitles chunk_duration starts (n, chunks) =
   (n + int (length (windows subtitles chunk_duration n starts)),
    chunks @ windows subtitles chunk_duration n starts)"
proof (induction starts arbitrary: n chunks)
  case Nil
  show ?case by simp
next
  case (Cons p starts)
  show ?case
  proof (cases "filter (in_chunk p (p + chunk_duration)) subtitles = []")
    case True
    then show ?thesis
      by (simp add: select_subtitles_filter emit_chunk_Nil Cons.IH)
  next
    case False
    then show ?thesis
      by (simp add: select_subtitles_filter emit_chunk_nonempty Cons.IH window_def Let_def)
  qed
qed

lemma windows_planned_start:
  "map ch_planned_start (windows subtitles chunk_duration n starts) =
   filter (\<lambda>p. filter (in_chunk p (p + chunk_duration)) subtitles \<noteq> []) starts"
  by (induction starts arbitrary: n) (simp_all add: window_def Let_def)


lemma windows_member:
  "w \<in> set (windows subtitles chunk_duration n starts) \<Longrightarrow>
   \<exists>m. \<exists>p \<in> set starts. w = window subtitles chunk_duration m p
        \<and> filter (in_chunk p (p + chunk_duration)) subtitles \<noteq> []"
proof (induction starts arbitrary: n)
  case Nil
  then show ?case by simp
next
  case (Cons p starts)
  show ?case
  proof (cases "filter (in_chunk p (p + chunk_duration)) subtitles = []")
    case True
    with Cons.prems have "w \<in> set (windows subtitles chunk_duration n starts)" by simp
    from Cons.IH [OF this] show ?thesis by auto
  next
    case False
    with Cons.prems have "w = window subtitles chunk_duration n p
        \<or> w \<in> set (windows subtitles chunk_duration (n + 1) starts)" by simp
    then show ?thesis
    proof
      assume "w = window subtitles chunk_duration n p"
      with False show ?thesis by auto
    next
      assume "w \<in> set (windows subtitles chunk_duration (n + 1) starts)"
      from Cons.IH [OF this] show ?thesis by auto
    qed
  qed
qed

lemma split_srt_by_time_Nil: "split_srt_by_time [] chunk_duration_minutes overlap_minutes = Some []"
  by (simp add: split_srt_by_time_def)

lemma split_loop_not_entered:
  "total_duration \<le> chunk_start \<Longrightarrow>
   split_loop subtitles chunk_duration overlap_duration total_duration chunk_start st = Some (snd st)"
  by (subst split_loop.simps) simp

lemma split_srt_by_time_nonpositive:
  "subtitles \<noteq> [] \<Longrightarrow> Max (sub_end ` set subtitles) \<le> 0 \<Longrightarrow>
   split_srt_by_time subtitles chunk_duration_minutes overlap_minutes = Some []"
  by (cases subtitles)
     (simp_all add: split_srt_by_time_def fold_max_Max split_loop_not_entered Let_def del: set_simps image_insert)

lemma split_srt_by_time_windows:
  "subtitles \<noteq> [] \<Longrightarrow> 0 < Max (sub_end ` set subtitles) \<Longrightarrow>
   overlap_minutes < chunk_duration_minutes \<Longrightarrow>
   split_srt_by_time subtitles chunk_duration_minutes overlap_minutes =
   Some (windows subtitles (chunk_duration_minutes * 60) 1
           (planned_starts (Max (sub_end ` set subtitles))
              (chunk_duration_minutes * 60 - overlap_minutes * 60) 0))"
  by (cases subtitles)
     (simp_all add: split_srt_by_time_def fold_max_Max split_loop_planned emit_all_windows Let_def
        del: set_simps image_insert)

lemma split_srt_by_time_None:
  "subtitles \<noteq> [] \<Longrightarrow> 0 < Max (sub_end ` set subtitles) \<Longrightarrow>
   chunk_duration_minutes \<le> overlap_minutes \<Longrightarrow>
   split_srt_by_time subtitles chunk_duration_minutes overlap_minutes = None"
  by (cases subtitles)
     (simp_all add: split_srt_by_time_def fold_max_Max split_loop_diverges Let_def
        del: set_simps image_insert)

subsection \<open>Planned starts and adjacent windows\<close>

lemma planned_starts_Cons:
  "planned_starts total_duration step chunk_start =
   chunk_start # (if 0 < step \<and> chunk_start + step < total_duration
                  then planned_starts total_duration step (chunk_start + step) else [])"
  by (subst planned_starts.simps) simp

lemma planned_starts_ge:
  "0 < step \<Longrightarrow> p \<in> set (planned_starts total_duration step chunk_start) \<Longrightarrow> chunk_start \<le> p"
proof (induction total_duration step chunk_start rule: planned_starts.induct)
  case (1 total_duration step chunk_start)
  from "1.prems"(2) have "p = chunk_start \<or>
      (0 < step \<and> chunk_start + step < total_duration
       \<and> p \<in> set (planned_starts total_duration step (chunk_start + step)))"
    by (subst (asm) planned_starts_Cons) (auto split: if_splits)
  then show ?case
  proof
    assume "p = chunk_start" then show ?thesis by simp
  next
    assume h: "0 < step \<and> chunk_start + step < total_duration
       \<and> p \<in> set (planned_starts total_duration step (chunk_start + step))"
    then have "chunk_start + step \<le> p" using "1.IH" "1.prems"(1) by blast
    with 1(2) show ?thesis by linarith
  qed
qed

lemma planned_starts_suffix:
  "0 < step \<Longrightarrow> planned_starts total_duration step chunk_start = us @ a # rest \<Longrightarrow>
   a # rest = planned_starts total_duration step a"
proof (induction total_duration step chunk_start arbitrary: us rule: planned_starts.induct)
  case (1 total_duration step chunk_start)
  show ?case
  proof (cases us)
    case Nil
    with "1.prems"(2) have eq: "planned_starts total_duration step chunk_start = a # rest" by simp
    then have "a = chunk_start" by (subst (asm) planned_starts_Cons) simp
    with eq show ?thesis by simp
  next
    case (Cons u us')
    with "1.prems"(2) have eq: "planned_starts total_duration step chunk_start = u # us' @ a # rest"
      by simp
    then have c: "0 < step \<and> chunk_start + step < total_duration"
      and t: "planned_starts total_duration step (chunk_start + step) = us' @ a # rest"
      by (subst (asm) planned_starts_Cons, simp split: if_splits)+
    from "1.IH" [OF c "1.prems"(1) t] show ?thesis .
  qed
qed

lemma planned_starts_cover:
  "0 < step \<Longrightarrow> step < chunk_duration \<Longrightarrow> chunk_start \<le> x \<Longrightarrow> x \<le> total_duration \<Longrightarrow>
   \<exists>p \<in> set (planned_starts total_duration step chunk_start). p \<le> x \<and> x < p + chunk_duration"
proof (induction total_duration step chunk_start rule: planned_starts.induct)
  case (1 total_duration step chunk_start)
  show ?case
  proof (cases "chunk_start + step \<le> x \<and> chunk_start + step < total_duration")
    case True
    with 1 have "\<exists>p \<in> set (planned_starts total_duration step (chunk_start + step)).
        p \<le> x \<and> x < p + chunk_duration"
      by simp
    with True "1.prems"(1) show ?thesis
      by (subst planned_starts_Cons) simp
  next
    case False
    with "1.prems" have "chunk_start \<le> x \<and> x < chunk_start + chunk_duration" by linarith
    then show ?thesis
      by (subst planned_starts_Cons) simp
  qed
qed

lemma filter_adjacent:
  "Suc k < length (filter P xs) \<Longrightarrow>
   \<exists>us vs ws. xs = us @ (filter P xs ! k) # vs @ (filter P xs ! Suc k) # ws \<and> (\<forall>v \<in> set vs. \<not> P v)"
proof (induction xs arbitrary: k)
  case Nil
  then show ?case by simp
next
  case (Cons x xs)
  show ?case
  proof (cases "P x")
    case False
    with Cons.prems have "Suc k < length (filter P xs)" by simp
    from Cons.IH [OF this] obtain us vs ws where
      "xs = us @ (filter P xs ! k) # vs @ (filter P xs ! Suc k) # ws" "\<forall>v \<in> set vs. \<not> P v"
      by blast
    with False have "x # xs = (x # us) @ (filter P (x # xs) ! k) # vs @ (filter P (x # xs) ! Suc k) # ws"
      by simp
    with \<open>\<forall>v \<in> set vs. \<not> P v\<close> show ?thesis by blast
  next
    case True
    show ?thesis
    proof (cases k)
      case (Suc j)
      with True Cons.prems have "Suc j < length (filter P xs)" by simp
      from Cons.IH [OF this] obtain us vs ws where
        "xs = us @ (filter P xs ! j) # vs @ (filter P xs ! Suc j) # ws" "\<forall>v \<in> set vs. \<not> P v"
        by blast
      with True Suc have "x # xs = (x # us) @ (filter P (x # xs) ! k) # vs @ (filter P (x # xs) ! Suc k) # ws"
        by simp
      with \<open>\<forall>v \<in> set vs. \<not> P v\<close> show ?thesis by blast
    next
      case 0
      from True Cons.prems 0 have ne: "filter P xs \<noteq> []" by auto
      then obtain y ys where f: "filter P xs = y # ys" by (cases "filter P xs") auto
      from filter_eq_Cons_iff [THEN iffD1, OF f] obtain vs ws where
        "xs = vs @ y # ws" "\<forall>v \<in> set vs. \<not> P v"
        by blast
      with True 0 f have "x # xs = [] @ (filter P (x # xs) ! k) # vs @ (filter P (x # xs) ! Suc k) # ws"
        by simp
      with \<open>\<forall>v \<in> set vs. \<not> P v\<close> show ?thesis by blast
    qed
  qed
qed

lemma windows_nth:
  "i < length (windows subtitles chunk_duration n starts) \<Longrightarrow>
   windows subtitles chunk_duration n starts ! i =
   window subtitles chunk_duration (n + int i)
     (filter (\<lambda>p. filter (in_chunk p (p + chunk_duration)) subtitles \<noteq> []) starts ! i)"
proof (induction starts arbitrary: n i)
  case Nil
  then show ?case by simp
next
  case (Cons p starts)
  show ?case
  proof (cases "filter (in_chunk p (p + chunk_duration)) subtitles = []")
    case True
    with Cons show ?thesis by simp
  next
    case False
    with Cons show ?thesis
      by (cases i) (simp_all add: add.assoc)
  qed
qed

subsection \<open>What a returned list of chunks looks like\<close>

lemma split_srt_by_time_cases:
  assumes "split_srt_by_time subtitles chunk_duration_minutes overlap_minutes = Some chunks"
  shows "chunks = [] \<or>
    (subtitles \<noteq> [] \<and> 0 < Max (sub_end ` set subtitles) \<and> overlap_minutes < chunk_duration_minutes \<and>
     chunks = windows subtitles (chunk_duration_minutes * 60) 1
           (planned_starts (Max (sub_end ` set subtitles))
              (chunk_duration_minutes * 60 - overlap_minutes * 60) 0))"
proof (cases "subtitles = []")
  case True
  with assms show ?thesis by (simp add: split_srt_by_time_Nil)
next
  case ne: False
  show ?thesis
  proof (cases "0 < Max (sub_end ` set subtitles)")
    case False
    then have "Max (sub_end ` set subtitles) \<le> 0" by simp
    from split_srt_by_time_nonpositive [OF ne this] assms show ?thesis by simp
  next
    case pos: True
    show ?thesis
    proof (cases "overlap_minutes < chunk_duration_minutes")
      case True
      with ne pos assms show ?thesis by (simp add: split_srt_by_time_windows)
    next
      case False
      with ne pos assms show ?thesis by (simp add: split_srt_by_time_None)
    qed
  qed
qed

lemma window_fields:
  "ch_number (window subtitles chunk_duration n p) = n"
  "ch_subtitles (window subtitles chunk_duration n p) = filter (in_chunk p (p + chunk_duration)) subtitles"
  "ch_planned_start (window subtitles chunk_duration n p) = p"
  "ch_planned_end (window subtitles chunk_duration n p) = p + chunk_duration"
  "ch_start_time (window subtitles chunk_duration n p) =
     Min (sub_start ` set (filter (in_chunk p (p + chunk_duration)) subtitles))"
  "ch_end_time (window subtitles chunk_duration n p) =
     Max (sub_end ` set (filter (in_chunk p (p + chunk_duration)) subtitles))"
  by (simp_all add: window_def Let_def del: set_filter)

lemma split_srt_by_time_chunk:
  assumes "split_srt_by_time subtitles chunk_duration_minutes overlap_minutes = Some chunks"
    and "w \<in> set chunks"
  shows "ch_planned_end w = ch_planned_start w + chunk_duration_minutes * 60"
    and "ch_subtitles w = filter (in_chunk (ch_planned_start w) (ch_planned_end w)) subtitles"
    and "ch_subtitles w \<noteq> []"
    and "ch_start_time w = Min (sub_start ` set (ch_subtitles w))"
    and "ch_end_time w = Max (sub_end ` set (ch_subtitles w))"
proof -
  from assms split_srt_by_time_cases [OF assms(1)]
  have "w \<in> set (windows subtitles (chunk_duration_minutes * 60) 1
           (planned_starts (Max (sub_end ` set subtitles))
              (chunk_duration_minutes * 60 - overlap_minutes * 60) 0))"
    by auto
  from windows_member [OF this] obtain m p where
    w: "w = window subtitles (chunk_duration_minutes * 60) m p"
    and ne: "filter (in_chunk p (p + chunk_duration_minutes * 60)) subtitles \<noteq> []"
    by blast
  show "ch_planned_end w = ch_planned_start w + chunk_duration_minutes * 60"
    by (simp add: w window_fields)
  show "ch_subtitles w = filter (in_chunk (ch_planned_start w) (ch_planned_end w)) subtitles"
    by (simp add: w window_fields)
  show "ch_subtitles w \<noteq> []"
    using ne by (simp add: w window_fields)
  show "ch_start_time w = Min (sub_start ` set (ch_subtitles w))"
    by (simp add: w window_fields del: set_filter)
  show "ch_end_time w = Max (sub_end ` set (ch_subtitles w))"
    by (simp add: w window_fields del: set_filter)
qed


subsection \<open>Coverage and neighbouring iterations\<close>

lemma total_duration_positive:
  "(\<exists>sub \<in> set subtitles. 0 < sub_end sub) \<longleftrightarrow> subtitles \<noteq> [] \<and> 0 < Max (sub_end ` set subtitles)"
proof (cases "subtitles = []")
  case True
  then show ?thesis by simp
next
  case False
  then have "0 < Max (sub_end ` set subtitles) \<longleftrightarrow> (\<exists>a \<in> sub_end ` set subtitles. 0 < a)"
    by (intro Max_gr_iff) simp_all
  with False show ?thesis by auto
qed

lemma windows_union:
  "(\<Union>w \<in> set (windows subtitles chunk_duration n starts). set (ch_subtitles w)) =
   {sub \<in> set subtitles. \<exists>p \<in> set starts. in_chunk p (p + chunk_duration) sub}"
proof (induction starts arbitrary: n)
  case Nil
  show ?case by simp
next
  case (Cons p starts)
  show ?case
  proof (cases "filter (in_chunk p (p + chunk_duration)) subtitles = []")
    case True
    then have "\<forall>sub \<in> set subtitles. \<not> in_chunk p (p + chunk_duration) sub"
      by (simp add: filter_empty_conv)
    with True Cons.IH [of n] show ?thesis by auto
  next
    case False
    with Cons.IH [of "n + 1"] show ?thesis
      by (auto simp: window_fields)
  qed
qed

lemma in_chunk_proper_interval:
  "sub_start sub < sub_end sub \<Longrightarrow>
   in_chunk chunk_start chunk_end sub \<longleftrightarrow> spec_overlaps chunk_start chunk_end sub"
  by (auto simp: in_chunk_def spec_overlaps_def)

lemma planned_starts_first: "chunk_start \<in> set (planned_starts total_duration step chunk_start)"
  by (subst planned_starts_Cons) simp

lemma planned_starts_tail:
  "planned_starts total_duration step a = a' # rest \<Longrightarrow> rest \<noteq> [] \<Longrightarrow>
   a' = a \<and> 0 < step \<and> rest = planned_starts total_duration step (a + step)"
  by (subst (asm) planned_starts_Cons) (auto split: if_splits)

lemma planned_starts_next:
  assumes step: "0 < step"
    and split: "planned_starts total_duration step chunk_start = us @ a # vs @ b # ws"
  shows "(vs = [] \<and> b = a + step) \<or> (vs \<noteq> [] \<and> hd vs = a + step \<and> a + step < b)"
proof -
  from planned_starts_suffix [OF step split]
  have "planned_starts total_duration step a = a # vs @ b # ws" by simp
  from planned_starts_tail [OF this]
  have t: "vs @ b # ws = planned_starts total_duration step (a + step)" by simp
  show ?thesis
  proof (cases vs)
    case Nil
    with t have "planned_starts total_duration step (a + step) = b # ws" by simp
    then have "b = a + step" by (subst (asm) planned_starts_Cons) simp
    with Nil show ?thesis by simp
  next
    case (Cons v vs')
    with t have e: "planned_starts total_duration step (a + step) = v # vs' @ b # ws" by simp
    from planned_starts_tail [OF e]
    have v: "v = a + step" and r: "vs' @ b # ws = planned_starts total_duration step (a + step + step)"
      by simp_all
    have "b \<in> set (planned_starts total_duration step (a + step + step))"
      unfolding r [symmetric] by simp
    from planned_starts_ge [OF step this] step have "a + step < b" by linarith
    with Cons v show ?thesis by simp
  qed
qed

lemma adjacent_consecutive:
  assumes "overlap_duration < chunk_duration"
  shows "in_chunk a (a + chunk_duration) sub \<and>
         in_chunk (a + (chunk_duration - overlap_duration))
                  (a + (chunk_duration - overlap_duration) + chunk_duration) sub \<longleftrightarrow>
         sub_start sub < a + chunk_duration \<and>
         (a + chunk_duration - overlap_duration \<le> sub_start sub \<or>
          a + chunk_duration - overlap_duration < sub_end sub)"
  using assms by (auto simp: in_chunk_def)

lemma adjacent_gap:
  assumes "overlap_duration < chunk_duration"
    and "a + (chunk_duration - overlap_duration) < b"
    and "\<not> in_chunk (a + (chunk_duration - overlap_duration))
                  (a + (chunk_duration - overlap_duration) + chunk_duration) sub"
  shows "in_chunk a (a + chunk_duration) sub \<and> in_chunk b (b + chunk_duration) sub \<longleftrightarrow>
         sub_start sub < a + chunk_duration \<and>
         (a + chunk_duration - overlap_duration \<le> sub_start sub \<or>
          a + chunk_duration - overlap_duration < sub_end sub)"
  using assms by (auto simp: in_chunk_def)

subsection \<open>Digits, numerals and formatting\<close>















subsection \<open>Splitting\<close>

lemma py_split_not_Nil: "py_split sep s \<noteq> []"
  by (induction sep s rule: py_split.induct) (auto split: list.splits)







subsection \<open>The fields of a formatted time\<close>
















subsection \<open>Blocks\<close>








section \<open>The claims\<close>

subsection \<open>C1: no entry is lost\<close>

text \<open>
  C1, as stated, fails: a non-empty list need not give a window. For the single entry
  that starts and ends at 0 the total duration is 0, the loop is not entered, and the
  result is empty.
\<close>

theorem zero_total_duration_counterexample:
  "split_srt_by_time [\<lparr>sub_number = 1, sub_start = 0, sub_end = 0, sub_text = ''a''\<rparr>] 30 2 = Some []"
  by (simp add: split_srt_by_time_def split_loop.simps)

text \<open>
  C1, amended. Let the overlap be above 0 and below the chunk duration, and let some
  entry end after time 0. Then \<^verbatim>\<open>split_srt_by_time\<close> returns; the union of the entry
  lists of the returned chunks is the set of entries that the planned range of some
  iteration selects; every entry with \<open>start \<le> end\<close> that starts at 0 or later, or ends
  after 0, is in some returned chunk; and when some entry with \<open>start \<le> end\<close> ends
  after 0, at least one chunk is returned.
\<close>

theorem no_entry_dropped:
  assumes "overlap_minutes < chunk_duration_minutes" and "0 < overlap_minutes"
    and "\<exists>sub \<in> set subtitles. 0 < sub_end sub"
  shows "\<exists>chunks. split_srt_by_time subtitles chunk_duration_minutes overlap_minutes = Some chunks \<and>
     (\<Union>w \<in> set chunks. set (ch_subtitles w)) =
       {sub \<in> set subtitles.
          \<exists>p \<in> set (planned_starts (Max (sub_end ` set subtitles))
                       (chunk_duration_minutes * 60 - overlap_minutes * 60) 0).
            in_chunk p (p + chunk_duration_minutes * 60) sub} \<and>
     (\<forall>sub \<in> set subtitles.
        sub_start sub \<le> sub_end sub \<and> (0 \<le> sub_start sub \<or> 0 < sub_end sub) \<longrightarrow>
        (\<exists>w \<in> set chunks. sub \<in> set (ch_subtitles w))) \<and>
     ((\<exists>sub \<in> set subtitles. sub_start sub \<le> sub_end sub \<and> 0 < sub_end sub) \<longrightarrow> chunks \<noteq> [])"
proof -
  let ?T = "Max (sub_end ` set subtitles)"
  let ?c = "chunk_duration_minutes * 60"
  let ?s = "chunk_duration_minutes * 60 - overlap_minutes * 60"
  let ?ps = "planned_starts ?T ?s 0"
  let ?chunks = "windows subtitles ?c 1 ?ps"
  from assms(3) have ne: "subtitles \<noteq> []" and pos: "0 < ?T"
    by (simp_all add: total_duration_positive)
  have run: "split_srt_by_time subtitles chunk_duration_minutes overlap_minutes = Some ?chunks"
    by (rule split_srt_by_time_windows [OF ne pos assms(1)])
  have un: "(\<Union>w \<in> set ?chunks. set (ch_subtitles w)) =
       {sub \<in> set subtitles. \<exists>p \<in> set ?ps. in_chunk p (p + ?c) sub}"
    by (rule windows_union)
  have step: "0 < ?s" "?s < ?c" "0 < ?c" using assms(1,2) by simp_all
  have cov: "\<exists>w \<in> set ?chunks. sub \<in> set (ch_subtitles w)"
    if sub: "sub \<in> set subtitles" and le: "sub_start sub \<le> sub_end sub"
      and b: "0 \<le> sub_start sub \<or> 0 < sub_end sub" for sub
  proof -
    have "\<exists>p \<in> set ?ps. in_chunk p (p + ?c) sub"
    proof (cases "0 \<le> sub_start sub")
      case True
      from sub have "sub_end sub \<le> ?T" by simp
      with le have "sub_start sub \<le> ?T" by linarith
      from planned_starts_cover [OF step(1,2) True this]
      show ?thesis by (auto simp: in_chunk_def)
    next
      case False
      with b step(3) have "in_chunk 0 (0 + ?c) sub"
        by (auto simp: in_chunk_def)
      with planned_starts_first [of 0 ?T ?s] show ?thesis by blast
    qed
    with sub have "sub \<in> (\<Union>w \<in> set ?chunks. set (ch_subtitles w))"
      unfolding un by simp
    then show ?thesis by blast
  qed
  have nonempty: "?chunks \<noteq> []"
    if "\<exists>sub \<in> set subtitles. sub_start sub \<le> sub_end sub \<and> 0 < sub_end sub"
  proof -
    from that obtain sub where "sub \<in> set subtitles" "sub_start sub \<le> sub_end sub" "0 < sub_end sub"
      by blast
    from cov [OF this(1,2)] this(3) show ?thesis by auto
  qed
  from run un cov nonempty show ?thesis by blast
qed

theorem no_entry_dropped_witness:
  "\<exists>chunks. split_srt_by_time [\<lparr>sub_number = 1, sub_start = 1, sub_end = 5, sub_text = ''a''\<rparr>] 30 2
       = Some chunks
     \<and> (\<exists>w \<in> set chunks. \<lparr>sub_number = 1, sub_start = 1, sub_end = 5, sub_text = ''a''\<rparr>
            \<in> set (ch_subtitles w))
     \<and> chunks \<noteq> []"
proof -
  let ?e = "\<lparr>sub_number = 1, sub_start = 1, sub_end = 5, sub_text = ''a''\<rparr>"
  have h: "(2::rat) < 30" "(0::rat) < 2" "\<exists>sub \<in> set [?e]. 0 < sub_end sub" by simp_all
  from no_entry_dropped [OF h] obtain chunks where
    r: "split_srt_by_time [?e] 30 2 = Some chunks"
    and c: "\<forall>sub \<in> set [?e].
        sub_start sub \<le> sub_end sub \<and> (0 \<le> sub_start sub \<or> 0 < sub_end sub) \<longrightarrow>
        (\<exists>w \<in> set chunks. sub \<in> set (ch_subtitles w))"
    and n: "(\<exists>sub \<in> set [?e]. sub_start sub \<le> sub_end sub \<and> 0 < sub_end sub) \<longrightarrow> chunks \<noteq> []"
    by blast
  from c have "\<exists>w \<in> set chunks. ?e \<in> set (ch_subtitles w)" by simp
  moreover from n have "chunks \<noteq> []" by simp
  ultimately show ?thesis using r by blast
qed

subsection \<open>C2: the three-entry scenario\<close>

text \<open>
  C2, as stated, fails. \<^verbatim>\<open>split_srt_by_time\<close> takes its chunk duration and its overlap
  in minutes and multiplies both by 60. Called with 30 and 5 on the entries \<open>[0,5)\<close>,
  \<open>[10,15)\<close>, \<open>[40,45)\<close>, it plans one window \<open>[0,1800)\<close>, which holds all three
  entries, and stops, because the next planned start 1500 is not below 45.
\<close>

theorem scenario_minutes_counterexample:
  "split_srt_by_time
     [\<lparr>sub_number = 1, sub_start = 0, sub_end = 5, sub_text = ''a''\<rparr>,
      \<lparr>sub_number = 2, sub_start = 10, sub_end = 15, sub_text = ''b''\<rparr>,
      \<lparr>sub_number = 3, sub_start = 40, sub_end = 45, sub_text = ''c''\<rparr>] 30 5
   = Some [\<lparr>ch_number = 1, ch_start_time = 0, ch_end_time = 45,
            ch_subtitles =
              [\<lparr>sub_number = 1, sub_start = 0, sub_end = 5, sub_text = ''a''\<rparr>,
               \<lparr>sub_number = 2, sub_start = 10, sub_end = 15, sub_text = ''b''\<rparr>,
               \<lparr>sub_number = 3, sub_start = 40, sub_end = 45, sub_text = ''c''\<rparr>],
            ch_planned_start = 0, ch_planned_end = 1800\<rparr>]"
  by (simp add: split_srt_by_time_def split_loop.simps emit_chunk_def in_chunk_def)

text \<open>
  C2, amended. With a chunk duration of half a minute and an overlap of a twelfth of a
  minute, that is 30 and 5 seconds after the conversion, the same entries give exactly
  two windows: number 1 planned \<open>[0,30)\<close> with entries 1 and 2, actual range 0 to 15, and
  number 2 planned \<open>[25,55)\<close> with entry 3, actual range 40 to 45. After the second
  window the next planned start is \<open>55 - 5 = 50\<close>, not below the total duration 45,
  and the loop ends.
\<close>

theorem scenario_seconds_two_windows:
  "split_srt_by_time
     [\<lparr>sub_number = 1, sub_start = 0, sub_end = 5, sub_text = ''a''\<rparr>,
      \<lparr>sub_number = 2, sub_start = 10, sub_end = 15, sub_text = ''b''\<rparr>,
      \<lparr>sub_number = 3, sub_start = 40, sub_end = 45, sub_text = ''c''\<rparr>] (1 / 2) (1 / 12)
   = Some [\<lparr>ch_number = 1, ch_start_time = 0, ch_end_time = 15,
            ch_subtitles =
              [\<lparr>sub_number = 1, sub_start = 0, sub_end = 5, sub_text = ''a''\<rparr>,
               \<lparr>sub_number = 2, sub_start = 10, sub_end = 15, sub_text = ''b''\<rparr>],
            ch_planned_start = 0, ch_planned_end = 30\<rparr>,
           \<lparr>ch_number = 2, ch_start_time = 40, ch_end_time = 45,
            ch_subtitles =
              [\<lparr>sub_number = 3, sub_start = 40, sub_end = 45, sub_text = ''c''\<rparr>],
            ch_planned_start = 25, ch_planned_end = 55\<rparr>]
   \<and> planned_starts 45 (1 / 2 * 60 - 1 / 12 * 60) 0 = [0, 25]"
  by (simp add: split_srt_by_time_def split_loop.simps emit_chunk_def in_chunk_def
        planned_starts.simps)

subsection \<open>C3: the selection of one iteration\<close>

text \<open>
  C3, as stated, fails in its last part: membership is not the same as overlap of the
  interval \<open>[start, end)\<close> with the planned range. The entry that starts and ends at 0
  is selected for the window planned \<open>[0,1800)\<close>, since its start lies in the range,
  although it does not end after the planned start.
\<close>

theorem zero_length_entry_counterexample:
  "split_srt_by_time
     [\<lparr>sub_number = 1, sub_start = 0, sub_end = 0, sub_text = ''a''\<rparr>,
      \<lparr>sub_number = 2, sub_start = 1, sub_end = 2, sub_text = ''b''\<rparr>] 30 2
   = Some [\<lparr>ch_number = 1, ch_start_time = 0, ch_end_time = 2,
            ch_subtitles =
              [\<lparr>sub_number = 1, sub_start = 0, sub_end = 0, sub_text = ''a''\<rparr>,
               \<lparr>sub_number = 2, sub_start = 1, sub_end = 2, sub_text = ''b''\<rparr>],
            ch_planned_start = 0, ch_planned_end = 1800\<rparr>]
   \<and> \<not> spec_overlaps 0 1800 \<lparr>sub_number = 1, sub_start = 0, sub_end = 0, sub_text = ''a''\<rparr>"
  by (simp add: split_srt_by_time_def split_loop.simps emit_chunk_def in_chunk_def
        spec_overlaps_def)

text \<open>
  C3, amended. For each planned range the inner loop selects exactly the entries that
  pass the membership test (start in the range, or end after the planned start and
  start before the planned end), in source order; a list of distinct entries gives a
  selection of distinct entries. Every returned chunk holds the selection for its own
  planned range, and an entry with \<open>start < end\<close> belongs to a chunk exactly when its
  interval overlaps the planned range of the chunk.
\<close>

theorem selection_is_membership_test:
  "select_subtitles chunk_start chunk_end subtitles [] =
     filter (in_chunk chunk_start chunk_end) subtitles \<and>
   (distinct subtitles \<longrightarrow> distinct (select_subtitles chunk_start chunk_end subtitles [])) \<and>
   (split_srt_by_time subtitles chunk_duration_minutes overlap_minutes = Some chunks \<longrightarrow>
      (\<forall>w \<in> set chunks.
         ch_subtitles w =
           select_subtitles (ch_planned_start w) (ch_planned_end w) subtitles [] \<and>
         (\<forall>sub \<in> set subtitles. sub_start sub < sub_end sub \<longrightarrow>
            (sub \<in> set (ch_subtitles w) \<longleftrightarrow>
             spec_overlaps (ch_planned_start w) (ch_planned_end w) sub))))"
proof (intro conjI impI ballI)
  show "select_subtitles chunk_start chunk_end subtitles [] =
     filter (in_chunk chunk_start chunk_end) subtitles"
    by (simp add: select_subtitles_filter)
next
  assume "distinct subtitles"
  then show "distinct (select_subtitles chunk_start chunk_end subtitles [])"
    by (simp add: select_subtitles_filter)
next
  fix w
  assume a: "split_srt_by_time subtitles chunk_duration_minutes overlap_minutes = Some chunks"
    "w \<in> set chunks"
  show sel: "ch_subtitles w = select_subtitles (ch_planned_start w) (ch_planned_end w) subtitles []"
    using split_srt_by_time_chunk(2) [OF a] by (simp add: select_subtitles_filter)
  fix sub
  assume "sub \<in> set subtitles" "sub_start sub < sub_end sub"
  then show "sub \<in> set (ch_subtitles w) \<longleftrightarrow>
             spec_overlaps (ch_planned_start w) (ch_planned_end w) sub"
    by (simp add: sel select_subtitles_filter in_chunk_proper_interval)
qed

theorem selection_is_membership_test_witness:
  "distinct [\<lparr>sub_number = 1, sub_start = 0, sub_end = 5, sub_text = ''a''\<rparr>]
   \<and> distinct (select_subtitles 0 1800
        [\<lparr>sub_number = 1, sub_start = 0, sub_end = 5, sub_text = ''a''\<rparr>] [])
   \<and> split_srt_by_time [\<lparr>sub_number = 1, sub_start = 0, sub_end = 5, sub_text = ''a''\<rparr>] 30 2
     = Some [\<lparr>ch_number = 1, ch_start_time = 0, ch_end_time = 5,
              ch_subtitles = [\<lparr>sub_number = 1, sub_start = 0, sub_end = 5, sub_text = ''a''\<rparr>],
              ch_planned_start = 0, ch_planned_end = 1800\<rparr>]
   \<and> spec_overlaps 0 1800 \<lparr>sub_number = 1, sub_start = 0, sub_end = 5, sub_text = ''a''\<rparr>"
proof -
  let ?e = "\<lparr>sub_number = 1, sub_start = 0, sub_end = 5, sub_text = ''a''\<rparr>"
  let ?w = "\<lparr>ch_number = 1, ch_start_time = 0, ch_end_time = 5, ch_subtitles = [?e],
             ch_planned_start = 0, ch_planned_end = 1800\<rparr>"
  have run: "split_srt_by_time [?e] 30 2 = Some [?w]"
    by (simp add: split_srt_by_time_def split_loop.simps emit_chunk_def in_chunk_def)
  have d: "distinct [?e]" by simp
  have m: "?w \<in> set [?w]" "?e \<in> set [?e]" "sub_start ?e < sub_end ?e" by simp_all
  note t = selection_is_membership_test
    [where subtitles = "[?e]" and chunk_start = 0 and chunk_end = 1800
       and chunk_duration_minutes = 30 and overlap_minutes = 2 and chunks = "[?w]"]
  from t d have c1: "distinct (select_subtitles 0 1800 [?e] [])" by blast
  from t run m have c2: "?e \<in> set (ch_subtitles ?w) \<longleftrightarrow>
      spec_overlaps (ch_planned_start ?w) (ch_planned_end ?w) ?e" by blast
  from c1 c2 d run show ?thesis by simp
qed

subsection \<open>C4: termination\<close>

text \<open>
  C4. When the overlap is at least 0 and below the chunk duration,
  \<^verbatim>\<open>split_srt_by_time\<close> returns, whatever the entries. One iteration entered at
  \<open>chunk_start < total_duration\<close> moves \<open>chunk_start\<close> forward by
  \<open>chunk_duration - overlap_duration\<close>, and the loop is left as soon as the new start is
  not below \<open>total_duration\<close>. When the overlap is not below the chunk duration the start
  does not move forward, and the function does not return as soon as some entry ends
  after time 0.
\<close>

theorem split_srt_by_time_terminates:
  "(overlap_minutes < chunk_duration_minutes \<and> 0 \<le> overlap_minutes \<longrightarrow>
      (\<exists>chunks. split_srt_by_time subtitles chunk_duration_minutes overlap_minutes = Some chunks)) \<and>
   (chunk_start < total_duration \<longrightarrow>
      split_loop subtitles chunk_duration overlap_duration total_duration chunk_start st =
      (let st' = emit_chunk chunk_start (chunk_start + chunk_duration)
                   (select_subtitles chunk_start (chunk_start + chunk_duration) subtitles []) st;
           next_chunk_start = chunk_start + (chunk_duration - overlap_duration)
       in if total_duration \<le> next_chunk_start then Some (snd st')
          else split_loop subtitles chunk_duration overlap_duration total_duration
                 next_chunk_start st')) \<and>
   (chunk_duration_minutes \<le> overlap_minutes \<and> (\<exists>sub \<in> set subtitles. 0 < sub_end sub) \<longrightarrow>
      split_srt_by_time subtitles chunk_duration_minutes overlap_minutes = None)"
proof (intro conjI impI)
  assume a: "overlap_minutes < chunk_duration_minutes \<and> 0 \<le> overlap_minutes"
  show "\<exists>chunks. split_srt_by_time subtitles chunk_duration_minutes overlap_minutes = Some chunks"
  proof (cases "\<exists>sub \<in> set subtitles. 0 < sub_end sub")
    case True
    then have "subtitles \<noteq> []" "0 < Max (sub_end ` set subtitles)"
      by (simp_all add: total_duration_positive)
    from split_srt_by_time_windows [OF this] a show ?thesis by simp
  next
    case False
    show ?thesis
    proof (cases "subtitles = []")
      case True
      then show ?thesis by (simp add: split_srt_by_time_Nil)
    next
      case ne: False
      with False have "\<not> 0 < Max (sub_end ` set subtitles)"
        unfolding total_duration_positive by blast
      then have "Max (sub_end ` set subtitles) \<le> 0" by simp
      from split_srt_by_time_nonpositive [OF ne this] show ?thesis by simp
    qed
  qed
next
  assume "chunk_start < total_duration"
  then show "split_loop subtitles chunk_duration overlap_duration total_duration chunk_start st =
      (let st' = emit_chunk chunk_start (chunk_start + chunk_duration)
                   (select_subtitles chunk_start (chunk_start + chunk_duration) subtitles []) st;
           next_chunk_start = chunk_start + (chunk_duration - overlap_duration)
       in if total_duration \<le> next_chunk_start then Some (snd st')
          else split_loop subtitles chunk_duration overlap_duration total_duration
                 next_chunk_start st')"
    by (subst split_loop.simps) (simp add: Let_def algebra_simps)
next
  assume a: "chunk_duration_minutes \<le> overlap_minutes \<and> (\<exists>sub \<in> set subtitles. 0 < sub_end sub)"
  then have "subtitles \<noteq> []" "0 < Max (sub_end ` set subtitles)"
    by (simp_all add: total_duration_positive)
  from split_srt_by_time_None [OF this] a
  show "split_srt_by_time subtitles chunk_duration_minutes overlap_minutes = None" by simp
qed

theorem split_srt_by_time_terminates_witness:
  "(\<exists>chunks. split_srt_by_time [\<lparr>sub_number = 1, sub_start = 1, sub_end = 5, sub_text = ''a''\<rparr>] 30 2
       = Some chunks)
   \<and> split_srt_by_time [\<lparr>sub_number = 1, sub_start = 1, sub_end = 5, sub_text = ''a''\<rparr>] 2 30 = None
   \<and> split_loop [\<lparr>sub_number = 1, sub_start = 1, sub_end = 5, sub_text = ''a''\<rparr>] 1800 120 5 0 (1, [])
     = Some [\<lparr>ch_number = 1, ch_start_time = 1, ch_end_time = 5,
              ch_subtitles = [\<lparr>sub_number = 1, sub_start = 1, sub_end = 5, sub_text = ''a''\<rparr>],
              ch_planned_start = 0, ch_planned_end = 1800\<rparr>]"
proof -
  let ?e = "\<lparr>sub_number = 1, sub_start = 1, sub_end = 5, sub_text = ''a''\<rparr>"
  have h1: "(2::rat) < 30 \<and> (0::rat) \<le> 2" by simp
  have h2: "(2::rat) \<le> 30 \<and> (\<exists>sub \<in> set [?e]. 0 < sub_end sub)" by simp
  have h3: "(0::rat) < 5" by simp
  note t1 = split_srt_by_time_terminates
    [where subtitles = "[?e]" and chunk_duration_minutes = 30 and overlap_minutes = 2
       and chunk_start = 0 and total_duration = 5 and chunk_duration = 1800
       and overlap_duration = 120 and st = "(1, [])"]
  note t2 = split_srt_by_time_terminates
    [where subtitles = "[?e]" and chunk_duration_minutes = 2 and overlap_minutes = 30
       and chunk_start = 0 and total_duration = 5 and chunk_duration = 1800
       and overlap_duration = 120 and st = "(1, [])"]
  from t1 h1 have c1: "\<exists>chunks. split_srt_by_time [?e] 30 2 = Some chunks" by blast
  from t2 h2 have c2: "split_srt_by_time [?e] 2 30 = None" by blast
  from t1 h3 have c3: "split_loop [?e] 1800 120 5 0 (1, []) =
      (let st' = emit_chunk 0 (0 + 1800) (select_subtitles 0 (0 + 1800) [?e] []) (1, []);
           next_chunk_start = 0 + (1800 - 120)
       in if 5 \<le> next_chunk_start then Some (snd st')
          else split_loop [?e] 1800 120 5 next_chunk_start st')" by blast
  from c1 c2 c3 show ?thesis
    by (simp add: emit_chunk_def in_chunk_def)
qed

subsection \<open>C5: what two neighbouring windows share\<close>

text \<open>
  C5, as stated, fails in the direction "only if": an entry that starts before the
  overlap region and ends inside it is in both windows. With 30 and 2 minutes, the
  entry \<open>[1000, 1700)\<close> is in the window planned \<open>[0,1800)\<close> and in the next one, planned
  \<open>[1680,3480)\<close>, and it does not start in \<open>[1680,1800)\<close>.
\<close>

theorem spanning_entry_counterexample:
  "split_srt_by_time
     [\<lparr>sub_number = 1, sub_start = 1000, sub_end = 1700, sub_text = ''a''\<rparr>,
      \<lparr>sub_number = 2, sub_start = 2000, sub_end = 2100, sub_text = ''b''\<rparr>] 30 2
   = Some [\<lparr>ch_number = 1, ch_start_time = 1000, ch_end_time = 1700,
            ch_subtitles =
              [\<lparr>sub_number = 1, sub_start = 1000, sub_end = 1700, sub_text = ''a''\<rparr>],
            ch_planned_start = 0, ch_planned_end = 1800\<rparr>,
           \<lparr>ch_number = 2, ch_start_time = 1000, ch_end_time = 2100,
            ch_subtitles =
              [\<lparr>sub_number = 1, sub_start = 1000, sub_end = 1700, sub_text = ''a''\<rparr>,
               \<lparr>sub_number = 2, sub_start = 2000, sub_end = 2100, sub_text = ''b''\<rparr>],
            ch_planned_start = 1680, ch_planned_end = 3480\<rparr>]
   \<and> \<not> (1800 - 2 * 60 \<le> sub_start \<lparr>sub_number = 1, sub_start = 1000, sub_end = 1700, sub_text = ''a''\<rparr>
         \<and> sub_start \<lparr>sub_number = 1, sub_start = 1000, sub_end = 1700, sub_text = ''a''\<rparr> < 1800)"
  by (simp add: split_srt_by_time_def split_loop.simps emit_chunk_def in_chunk_def)

text \<open>
  C5, amended. Take two neighbours \<open>k\<close> and \<open>k + 1\<close> in the returned list, and write
  \<open>next\<close> for the planned end of \<open>k\<close> minus the overlap. An entry is in both exactly when
  it starts before the planned end of \<open>k\<close> and either starts at \<open>next\<close> or later, or ends
  after \<open>next\<close>. In particular every entry that starts in \<open>[next, planned_end)\<close> of
  window \<open>k\<close> is in both.
\<close>

theorem adjacent_windows_share:
  assumes run: "split_srt_by_time subtitles chunk_duration_minutes overlap_minutes = Some chunks"
    and k: "Suc k < length chunks"
    and sub: "sub \<in> set subtitles"
  shows "(sub \<in> set (ch_subtitles (chunks ! k)) \<and> sub \<in> set (ch_subtitles (chunks ! Suc k)) \<longleftrightarrow>
          sub_start sub < ch_planned_end (chunks ! k) \<and>
          (ch_planned_end (chunks ! k) - overlap_minutes * 60 \<le> sub_start sub \<or>
           ch_planned_end (chunks ! k) - overlap_minutes * 60 < sub_end sub)) \<and>
         (ch_planned_end (chunks ! k) - overlap_minutes * 60 \<le> sub_start sub \<and>
          sub_start sub < ch_planned_end (chunks ! k) \<longrightarrow>
          sub \<in> set (ch_subtitles (chunks ! k)) \<and> sub \<in> set (ch_subtitles (chunks ! Suc k)))"
proof -
  let ?T = "Max (sub_end ` set subtitles)"
  let ?c = "chunk_duration_minutes * 60"
  let ?o = "overlap_minutes * 60"
  let ?ps = "planned_starts ?T (?c - ?o) 0"
  let ?P = "\<lambda>p. filter (in_chunk p (p + ?c)) subtitles \<noteq> []"
  let ?qs = "filter ?P ?ps"
  from k have "chunks \<noteq> []" by auto
  with split_srt_by_time_cases [OF run]
  have lt: "overlap_minutes < chunk_duration_minutes" and c: "chunks = windows subtitles ?c 1 ?ps"
    by auto
  have len: "length chunks = length ?qs"
    using windows_planned_start [of subtitles ?c 1 ?ps] c
    by (metis length_map)
  from k have k0: "k < length chunks" by simp
  have wk: "chunks ! k = window subtitles ?c (1 + int k) (?qs ! k)"
    using windows_nth [of k subtitles ?c 1 ?ps] k0 c by simp
  have wk': "chunks ! Suc k = window subtitles ?c (1 + int (Suc k)) (?qs ! Suc k)"
    using windows_nth [of "Suc k" subtitles ?c 1 ?ps] k c by simp
  from k len have "Suc k < length ?qs" by simp
  from filter_adjacent [OF this] obtain us vs ws where
    ps: "?ps = us @ (?qs ! k) # vs @ (?qs ! Suc k) # ws" and gap: "\<forall>v \<in> set vs. \<not> ?P v"
    by blast
  let ?a = "?qs ! k" and ?b = "?qs ! Suc k"
  from lt have step: "0 < ?c - ?o" and lt': "?o < ?c" by simp_all
  have main: "in_chunk ?a (?a + ?c) sub \<and> in_chunk ?b (?b + ?c) sub \<longleftrightarrow>
         sub_start sub < ?a + ?c \<and> (?a + ?c - ?o \<le> sub_start sub \<or> ?a + ?c - ?o < sub_end sub)"
    using planned_starts_next [OF step ps]
  proof
    assume "vs = [] \<and> ?b = ?a + (?c - ?o)"
    then have b: "?b = ?a + (?c - ?o)" by simp
    show ?thesis unfolding b by (rule adjacent_consecutive [OF lt'])
  next
    assume h: "vs \<noteq> [] \<and> hd vs = ?a + (?c - ?o) \<and> ?a + (?c - ?o) < ?b"
    then have "?a + (?c - ?o) \<in> set vs" by (metis hd_in_set)
    with gap have "filter (in_chunk (?a + (?c - ?o)) (?a + (?c - ?o) + ?c)) subtitles = []"
      by blast
    with sub have "\<not> in_chunk (?a + (?c - ?o)) (?a + (?c - ?o) + ?c) sub"
      by (simp add: filter_empty_conv)
    with h show ?thesis by (intro adjacent_gap [OF lt']) simp_all
  qed
  have iff: "sub \<in> set (ch_subtitles (chunks ! k)) \<and> sub \<in> set (ch_subtitles (chunks ! Suc k)) \<longleftrightarrow>
          sub_start sub < ch_planned_end (chunks ! k) \<and>
          (ch_planned_end (chunks ! k) - ?o \<le> sub_start sub \<or>
           ch_planned_end (chunks ! k) - ?o < sub_end sub)"
    using main sub by (simp add: wk wk' window_fields)
  then show ?thesis by blast
qed

theorem adjacent_windows_share_witness:
  "split_srt_by_time
     [\<lparr>sub_number = 1, sub_start = 1700, sub_end = 1750, sub_text = ''a''\<rparr>,
      \<lparr>sub_number = 2, sub_start = 2000, sub_end = 2100, sub_text = ''b''\<rparr>] 30 2
   = Some [\<lparr>ch_number = 1, ch_start_time = 1700, ch_end_time = 1750,
            ch_subtitles =
              [\<lparr>sub_number = 1, sub_start = 1700, sub_end = 1750, sub_text = ''a''\<rparr>],
            ch_planned_start = 0, ch_planned_end = 1800\<rparr>,
           \<lparr>ch_number = 2, ch_start_time = 1700, ch_end_time = 2100,
            ch_subtitles =
              [\<lparr>sub_number = 1, sub_start = 1700, sub_end = 1750, sub_text = ''a''\<rparr>,
               \<lparr>sub_number = 2, sub_start = 2000, sub_end = 2100, sub_text = ''b''\<rparr>],
            ch_planned_start = 1680, ch_planned_end = 3480\<rparr>]
   \<and> (1800 - 2 * 60 \<le> sub_start \<lparr>sub_number = 1, sub_start = 1700, sub_end = 1750, sub_text = ''a''\<rparr>
      \<and> sub_start \<lparr>sub_number = 1, sub_start = 1700, sub_end = 1750, sub_text = ''a''\<rparr> < 1800)"
proof -
  let ?e1 = "\<lparr>sub_number = 1, sub_start = 1700, sub_end = 1750, sub_text = ''a''\<rparr>"
  let ?e2 = "\<lparr>sub_number = 2, sub_start = 2000, sub_end = 2100, sub_text = ''b''\<rparr>"
  let ?w1 = "\<lparr>ch_number = 1, ch_start_time = 1700, ch_end_time = 1750, ch_subtitles = [?e1],
              ch_planned_start = 0, ch_planned_end = 1800\<rparr>"
  let ?w2 = "\<lparr>ch_number = 2, ch_start_time = 1700, ch_end_time = 2100, ch_subtitles = [?e1, ?e2],
              ch_planned_start = 1680, ch_planned_end = 3480\<rparr>"
  have run: "split_srt_by_time [?e1, ?e2] 30 2 = Some [?w1, ?w2]"
    by (simp add: split_srt_by_time_def split_loop.simps emit_chunk_def in_chunk_def)
  have k: "Suc 0 < length [?w1, ?w2]" and m: "?e1 \<in> set [?e1, ?e2]" by simp_all
  from adjacent_windows_share [OF run k m] run show ?thesis by simp
qed

subsection \<open>C6: formatting a time and parsing it back\<close>


subsection \<open>C7: a malformed timestamp aborts the parse\<close>



subsection \<open>C8: blocks that fail a structural check are passed over\<close>



subsection \<open>C9: empty input, emitted chunks and their numbers\<close>



subsection \<open>C10: timestamps of any digit count\<close>



end
